theory Spec2Isabelle
  imports Complex_Main "HOL-Library.Stream"
begin

section \<open>JavaScript values used by the feature utilities\<close>

text \<open>
  A JavaScript string is a sequence of code units. The model uses \<^typ>\<open>string\<close>, one
  \<^typ>\<open>char\<close> per code unit, so it covers the strings whose code units lie in
  U+0000..U+00FF. A transcription that may be \<^verbatim>\<open>null\<close> is a \<^typ>\<open>string option\<close>;
  the test \<^verbatim>\<open>!transcription\<close> holds for \<^verbatim>\<open>null\<close> and for the empty string.
  Numbers are modelled as \<^typ>\<open>real\<close>: rounding of IEEE doubles, NaN and the infinities
  are outside the model.
\<close>

definition falsy :: "string option \<Rightarrow> bool" where
  "falsy t = (case t of None \<Rightarrow> True | Some s \<Rightarrow> s = [])"

text \<open>The class \<^verbatim>\<open>\s\<close>: TAB, LF, VT, FF, CR, SPACE and NBSP below U+0100.\<close>

definition isSpace :: "char \<Rightarrow> bool" where
  "isSpace c = (of_char c \<in> {9, 10, 11, 12, 13, 32, 160 :: nat})"

text \<open>The class \<^verbatim>\<open>\w\<close>: ASCII letters, digits and the underscore.\<close>

definition isWordChar :: "char \<Rightarrow> bool" where
  "isWordChar c =
     (let n = of_char c :: nat
      in (48 \<le> n \<and> n \<le> 57) \<or> (65 \<le> n \<and> n \<le> 90) \<or> n = 95 \<or> (97 \<le> n \<and> n \<le> 122))"

text \<open>
  \<^verbatim>\<open>String.prototype.toLowerCase\<close> on one code unit: A-Z and the Latin-1 capitals
  U+00C0..U+00DE (without the multiplication sign U+00D7) move up by 32.
\<close>

definition toLowerChar :: "char \<Rightarrow> char" where
  "toLowerChar c =
     (let n = of_char c :: nat
      in if (65 \<le> n \<and> n \<le> 90) \<or> (192 \<le> n \<and> n \<le> 222 \<and> n \<noteq> 215)
         then char_of (n + 32) else c)"

definition toLowerCase :: "string \<Rightarrow> string" where
  "toLowerCase s = map toLowerChar s"

text \<open>\<^verbatim>\<open>String.prototype.trim\<close> removes the same class from both ends.\<close>

definition trim :: "string \<Rightarrow> string" where
  "trim s = rev (dropWhile isSpace (rev (dropWhile isSpace s)))"

text \<open>
  \<^verbatim>\<open>s.split(/[...]+/)\<close> for a character class \<open>sep\<close>: the text before the next
  separator is one piece, the whole run of separators is skipped, and what is left at the
  end is the last piece. Leading or trailing separators therefore give an empty first or
  last piece, and the empty string splits into one empty piece.
\<close>

function splitOn :: "(char \<Rightarrow> bool) \<Rightarrow> string \<Rightarrow> string list" where
  "splitOn sep s =
     (let tok = takeWhile (\<lambda>c. \<not> sep c) s; rest = dropWhile (\<lambda>c. \<not> sep c) s
      in if rest = [] then [tok] else tok # splitOn sep (dropWhile sep rest))"
  by pat_completeness auto
termination
proof (relation "measure (\<lambda>(sep, s). length s)")
  show "wf (measure (\<lambda>(sep, s). length s))" by simp
next
  fix sep :: "char \<Rightarrow> bool" and s tok rest :: string
  assume r: "rest = dropWhile (\<lambda>c. \<not> sep c) s" and ne: "rest \<noteq> []"
  from ne obtain c cs where rc: "rest = c # cs" by (cases rest) auto
  have "sep c" using r rc hd_dropWhile[of "\<lambda>c. \<not> sep c" s]
    by (metis list.sel(1) list.distinct(1))
  then have "length (dropWhile sep rest) \<le> length cs"
    using rc length_dropWhile_le[of sep cs] by simp
  moreover have "length rest \<le> length s" using r by (simp add: length_dropWhile_le)
  ultimately show "((sep, dropWhile sep rest), (sep, s)) \<in> measure (\<lambda>(sep, s). length s)"
    using rc by simp
qed

declare splitOn.simps [simp del]

text \<open>
  A word boundary \<^verbatim>\<open>\b\<close> lies between two neighbouring positions of which exactly one
  holds a word character; the positions before the start and after the end hold none.
\<close>

definition wordBoundary :: "char option \<Rightarrow> char option \<Rightarrow> bool" where
  "wordBoundary prev nxt =
     ((case prev of None \<Rightarrow> False | Some c \<Rightarrow> isWordChar c)
      \<noteq> (case nxt of None \<Rightarrow> False | Some c \<Rightarrow> isWordChar c))"

text \<open>The first character of the rest of the input, if there is one.\<close>

definition peek :: "string \<Rightarrow> char option" where
  "peek s = (case s of [] \<Rightarrow> None | c # _ \<Rightarrow> Some c)"

text \<open>
  Under the flag \<^verbatim>\<open>i\<close> a pattern character matches an input character when both
  agree up to letter case; \<open>ciPrefix p s\<close> says that the literal \<open>p\<close> matches at the
  start of \<open>s\<close>.
\<close>

definition ciPrefix :: "string \<Rightarrow> string \<Rightarrow> bool" where
  "ciPrefix p s = (length p \<le> length s \<and> toLowerCase (take (length p) s) = toLowerCase p)"

text \<open>
  \<^verbatim>\<open>s.match(re)\<close> with the flag \<^verbatim>\<open>g\<close> and the result's length: the input is
  scanned from the left; \<open>m prev rest\<close> gives the length of the match that starts at
  the current position (\<open>prev\<close> is the character before it), the search resumes at the
  end of a match, and a position without a match is passed over. \<open>skip\<close> counts the
  characters of the last match that the scan still has to pass. All patterns below match
  at least one character.
\<close>

primrec countMatches :: "(char option \<Rightarrow> string \<Rightarrow> nat option) \<Rightarrow> char option \<Rightarrow> nat \<Rightarrow> string \<Rightarrow> nat" where
  "countMatches m prev skip [] = 0"
| "countMatches m prev skip (c # cs) =
     (if 0 < skip then countMatches m (Some c) (skip - 1) cs
      else (case m prev (c # cs) of
              Some n \<Rightarrow> 1 + countMatches m (Some c) (n - 1) cs
            | None \<Rightarrow> countMatches m (Some c) 0 cs))"

section \<open>Linguistic feature extractor (featureUtils.js)\<close>

subsection \<open>calculateSpeechRate\<close>

definition calculateSpeechRate :: "string option \<Rightarrow> real \<Rightarrow> real" where
  "calculateSpeechRate transcription durationInSeconds =
     (if falsy transcription \<or> durationInSeconds \<le> 0 then 0
      else
        let words = filter (\<lambda>word. 0 < length word) (splitOn isSpace (the transcription));
            wordCount = length words;
            durationInMinutes = durationInSeconds / 60
        in real wordCount / durationInMinutes)"

subsection \<open>countHesitations and countVagueWords\<close>

definition hesitationWords :: "string list" where
  "hesitationWords = [''uh'', ''um'', ''er'', ''ah'', ''hmm'', ''ehm'']"

definition countHesitations :: "string option \<Rightarrow> nat" where
  "countHesitations transcription =
     (if falsy transcription then 0
      else
        let words = splitOn isSpace (toLowerCase (the transcription))
        in length (filter (\<lambda>word. word \<in> set hesitationWords) words))"

definition vagueWords :: "string list" where
  "vagueWords = [''thing'', ''stuff'', ''something'', ''somewhere'', ''somehow'',
                 ''whatever'', ''whatsoever'']"

definition countVagueWords :: "string option \<Rightarrow> nat" where
  "countVagueWords transcription =
     (if falsy transcription then 0
      else
        let words = splitOn isSpace (toLowerCase (the transcription))
        in length (filter (\<lambda>word. word \<in> set vagueWords) words))"

subsection \<open>countPauses\<close>

text \<open>
  The pattern \<^verbatim>\<open>/\.{2,}|,{2,}|\.\.\.|--+/g\<close>: the alternatives are tried in this order
  and each repetition is greedy, so a match takes the whole run.
\<close>

definition runLength :: "char \<Rightarrow> string \<Rightarrow> nat" where
  "runLength x s = length (takeWhile (\<lambda>c. c = x) s)"

definition pauseAt :: "char option \<Rightarrow> string \<Rightarrow> nat option" where
  "pauseAt prev s =
     (if 2 \<le> runLength (CHR ''.'') s then Some (runLength (CHR ''.'') s)
      else if 2 \<le> runLength (CHR '','') s then Some (runLength (CHR '','') s)
      else if take 3 s = ''...'' then Some 3
      else if 2 \<le> runLength (CHR ''-'') s then Some (runLength (CHR ''-'') s)
      else None)"

definition countPauses :: "string option \<Rightarrow> nat" where
  "countPauses transcription =
     (if falsy transcription then 0
      else countMatches pauseAt None 0 (the transcription))"

subsection \<open>detectIncompleteSentences\<close>

definition isTerminator :: "char \<Rightarrow> bool" where
  "isTerminator c = (c = CHR ''.'' \<or> c = CHR ''!'' \<or> c = CHR ''?'')"

definition conjunctions :: "string list" where
  "conjunctions = [''and'', ''but'', ''or'', ''so'', ''because'', ''if'', ''when'']"

text \<open>
  \<^verbatim>\<open>/\b(and|but|or|so|because|if|when)\s*$/i\<close> at one position: a word boundary, one
  of the words, then only white space up to the end of the input.
\<close>

definition conjunctionAt :: "char option \<Rightarrow> string \<Rightarrow> bool" where
  "conjunctionAt prev s =
     (wordBoundary prev (peek s) \<and>
      list_ex (\<lambda>w. ciPrefix w s \<and> list_all isSpace (drop (length w) s)) conjunctions)"

text \<open>\<^verbatim>\<open>re.test(s)\<close>: the pattern matches at some position of the input.\<close>

primrec endsWithConjunction :: "char option \<Rightarrow> string \<Rightarrow> bool" where
  "endsWithConjunction prev [] = False"
| "endsWithConjunction prev (c # cs) =
     (conjunctionAt prev (c # cs) \<or> endsWithConjunction (Some c) cs)"

text \<open>The \<^verbatim>\<open>for ... of\<close> loop with its counter.\<close>

primrec countIncomplete :: "string list \<Rightarrow> nat \<Rightarrow> nat" where
  "countIncomplete [] incompleteCount = incompleteCount"
| "countIncomplete (sentence # rest) incompleteCount =
     countIncomplete rest
       (if length (splitOn isSpace sentence) < 3 \<or> endsWithConjunction None (trim sentence)
        then incompleteCount + 1 else incompleteCount)"

definition detectIncompleteSentences :: "string option \<Rightarrow> nat" where
  "detectIncompleteSentences transcription =
     (if falsy transcription then 0
      else
        let sentences = filter (\<lambda>s. 0 < length (trim s)) (splitOn isTerminator (the transcription))
        in countIncomplete sentences 0)"

subsection \<open>countLostWords\<close>

text \<open>
  Both patterns have the shape \<^verbatim>\<open>/\b PREFIX (A|B|...)\b/gi\<close>. At one position the
  boundary is checked first, then the prefix, then the alternatives from left to right;
  an alternative counts only if a word boundary follows it.
\<close>

definition phraseAt :: "string \<Rightarrow> string list \<Rightarrow> char option \<Rightarrow> string \<Rightarrow> nat option" where
  "phraseAt pre alts prev s =
     (if wordBoundary prev (peek s) then
        map_option (\<lambda>a. length (pre @ a))
          (find (\<lambda>a. ciPrefix (pre @ a) s \<and>
                      wordBoundary (Some (last (pre @ a))) (peek (drop (length (pre @ a)) s)))
                alts)
      else None)"

definition lostWordsPatterns :: "(char option \<Rightarrow> string \<Rightarrow> nat option) list" where
  "lostWordsPatterns =
     [phraseAt '''' [''that thing'', ''you know'', ''like'', ''what's it called'',
                     ''what do you call it''],
      phraseAt ''I '' [''can't remember'', ''forgot'', ''don't recall'']]"

primrec countLostLoop :: "(char option \<Rightarrow> string \<Rightarrow> nat option) list \<Rightarrow> string \<Rightarrow> nat \<Rightarrow> nat" where
  "countLostLoop [] transcription count = count"
| "countLostLoop (pattern # rest) transcription count =
     (let matches = countMatches pattern None 0 transcription
      in countLostLoop rest transcription (if 0 < matches then count + matches else count))"

definition countLostWords :: "string option \<Rightarrow> nat" where
  "countLostWords transcription =
     (if falsy transcription then 0
      else countLostLoop lostWordsPatterns (the transcription) 0)"

subsection \<open>calculateSemanticAnomaly and normalizeFeatures\<close>

text \<open>
  \<^verbatim>\<open>Math.random()\<close> is modelled by the stream of the numbers it is going to return;
  a function that calls it takes the stream and returns the rest of it.
\<close>

type_synonym rng = "real stream"

definition random :: "rng \<Rightarrow> real \<times> rng" where
  "random g = (shd g, stl g)"

definition calculateSemanticAnomaly :: "string option \<Rightarrow> rng \<Rightarrow> real \<times> rng" where
  "calculateSemanticAnomaly transcription g =
     (let (r, g1) = random g in (0.1 + r * 0.2, g1))"

text \<open>
  An object with numeric properties is the list of its own properties in enumeration
  order; \<open>map_of\<close> reads an own property.
\<close>

type_synonym numObject = "(string \<times> real) list"

definition normalizeFeatures :: "numObject \<Rightarrow> numObject" where
  "normalizeFeatures features = features"

subsection \<open>calculateRiskScore\<close>

text \<open>
  Both arguments are plain objects, whose prototype is \<^verbatim>\<open>Object.prototype\<close>. The read
  \<^verbatim>\<open>weights[feature]\<close> finds an own property first and otherwise walks the prototype
  chain, where it finds a function (or, for \<^verbatim>\<open>__proto__\<close>, an object) for the names
  below and \<^verbatim>\<open>undefined\<close> for every other name.
\<close>

definition objectPrototypeNames :: "string list" where
  "objectPrototypeNames =
     [''constructor'', ''hasOwnProperty'', ''isPrototypeOf'', ''propertyIsEnumerable'',
      ''toLocaleString'', ''toString'', ''valueOf'', ''__proto__'', ''__defineGetter__'',
      ''__defineSetter__'', ''__lookupGetter__'', ''__lookupSetter__'']"

datatype propRead = Own real | Inherited | Undefined

definition readProp :: "numObject \<Rightarrow> string \<Rightarrow> propRead" where
  "readProp obj key =
     (case map_of obj key of
        Some x \<Rightarrow> Own x
      | None \<Rightarrow> if key \<in> set objectPrototypeNames then Inherited else Undefined)"

text \<open>
  \<^verbatim>\<open>if (weights[feature])\<close> tests the value read for truthiness: a number that is not
  zero, or any function or object.
\<close>

definition truthy :: "propRead \<Rightarrow> bool" where
  "truthy v = (case v of Own x \<Rightarrow> x \<noteq> 0 | Inherited \<Rightarrow> True | Undefined \<Rightarrow> False)"

text \<open>
  The two accumulators. As long as every weight read was a number they are numbers.
  Once an inherited member is read, \<^verbatim>\<open>features[feature] * weights[feature]\<close> is NaN
  and stays NaN under every further addition, and \<^verbatim>\<open>weightTotal += weights[feature]\<close>
  turns the total into a string (the digits so far followed by the text of the function
  or object), to which later weights are appended; that string never reads as a number.
  \<open>Poisoned\<close> stands for this pair.
\<close>

datatype accumulators = Sums real real | Poisoned

text \<open>
  The \<^verbatim>\<open>for ... in\<close> loop visits the own keys of \<open>features\<close> (\<^verbatim>\<open>Object.prototype\<close>
  has no enumerable property), so the read \<^verbatim>\<open>features[feature]\<close> is an own number.
\<close>

primrec riskLoop :: "string list \<Rightarrow> numObject \<Rightarrow> numObject \<Rightarrow> accumulators \<Rightarrow> accumulators" where
  "riskLoop [] features weights acc = acc"
| "riskLoop (feature # rest) features weights acc =
     riskLoop rest features weights
       (if truthy (readProp weights feature)
        then (case acc of
                Sums weightedSum weightTotal \<Rightarrow>
                  (case readProp weights feature of
                     Own x \<Rightarrow> Sums (weightedSum + the (map_of features feature) * x)
                                   (weightTotal + x)
                   | Inherited \<Rightarrow> Poisoned
                   | Undefined \<Rightarrow> Poisoned)
              | Poisoned \<Rightarrow> Poisoned)
        else acc)"

text \<open>
  In the last line \<^verbatim>\<open>weightTotal > 0\<close> is false for the string of a poisoned total
  (it converts to NaN), so the function returns 0 then.
\<close>

definition calculateRiskScore :: "numObject option \<Rightarrow> numObject option \<Rightarrow> real" where
  "calculateRiskScore features weights =
     (case (features, weights) of
        (Some f, Some w) \<Rightarrow>
          (case riskLoop (map fst f) f w (Sums 0 0) of
             Sums weightedSum weightTotal \<Rightarrow>
               if 0 < weightTotal then weightedSum / weightTotal else 0
           | Poisoned \<Rightarrow> 0)
      | _ \<Rightarrow> 0)"

subsection \<open>checkAudioQuality\<close>

text \<open>
  The function always answers \<^verbatim>\<open>success: true\<close>; the model returns the \<^verbatim>\<open>data\<close>
  object. The audio file is not read.
\<close>

record qualityData =
  qualityScore :: real
  issues :: "string list"

definition checkAudioQuality :: "'f \<Rightarrow> rng \<Rightarrow> qualityData \<times> rng" where
  "checkAudioQuality audioFile g =
     (let (r1, g1) = random g;
          issues1 = (if 0.8 < r1 then [''low_snr''] else []);
          (r2, g2) = random g1;
          issues2 = (if 0.9 < r2 then issues1 @ [''clipping''] else issues1);
          (r3, g3) = random g2;
          issues3 = (if 0.95 < r3 then issues2 @ [''distortion''] else issues2)
      in (\<lparr>qualityScore = min 1 (max 0 (0.95 - real (length issues3) * 0.2)),
           issues = issues3\<rparr>, g3))"

section \<open>The analysis pipeline (audio processing module)\<close>

record audioFile =
  name :: string

record settings =
  modelType :: string
  contamination :: real
  featureWeights :: numObject
  transcriptionModel :: string

record preprocessData =
  pre_file :: audioFile
  pre_duration :: real
  pre_sampleRate :: nat

record transcriptionData =
  tr_file :: audioFile
  tr_transcription :: string
  tr_confidence :: real
  tr_model :: string

record featureData =
  fe_file :: audioFile
  fe_features :: numObject

record analysisData =
  risk_status :: string
  confidence :: real
  model_used :: string
  key_indicators :: "string list"
  analysis_notes :: "string list"

record analysisResult =
  result_id :: string
  file_name :: string
  res_risk_status :: string
  res_confidence :: real
  res_key_indicators :: "string list"
  res_features :: numObject
  res_transcription :: string
  res_analysis_notes :: "string list"

text \<open>
  The argument of one \<^verbatim>\<open>updateProgress\<close> call. The calls that report the end of a
  stage pass \<^verbatim>\<open>{ progress: 100 }\<close> only, so step and name are optional.
\<close>

record progressEvent =
  currentStep :: "nat option"
  stepName :: "string option"
  progress :: real

text \<open>
  A stage answers \<^verbatim>\<open>{ success: true, data }\<close> (\<open>Inr data\<close>) or
  \<^verbatim>\<open>{ success: false, error }\<close> (\<open>Inl error\<close>).
\<close>

type_synonym 'a response = "string + 'a"

subsection \<open>The four stages as the source ships them\<close>

text \<open>
  Each body sits in a \<^verbatim>\<open>try\<close> block whose statements cannot throw for a settings
  object that is not \<^verbatim>\<open>null\<close>, so the \<^verbatim>\<open>catch\<close> branches are not reached and these
  four functions always answer \<open>Inr\<close>.
\<close>

definition preprocessAudio :: "audioFile \<Rightarrow> rng \<Rightarrow> preprocessData response \<times> rng" where
  "preprocessAudio audioFile g =
     (let (r, g1) = random g
      in (Inr \<lparr>pre_file = audioFile, pre_duration = r * 60 + 20, pre_sampleRate = 16000\<rparr>, g1))"

definition placeholderTranscription :: string where
  "placeholderTranscription =
     ''This is a placeholder transcription for demonstration purposes. '' @
     ''In a real application, this would be the actual transcribed speech from the audio file.''"

definition transcribeAudio :: "audioFile \<Rightarrow> string \<Rightarrow> rng \<Rightarrow> transcriptionData response \<times> rng" where
  "transcribeAudio audioFile model g =
     (Inr \<lparr>tr_file = audioFile, tr_transcription = placeholderTranscription,
           tr_confidence = 0.87, tr_model = model\<rparr>, g)"

definition extractFeatures :: "audioFile \<Rightarrow> string \<Rightarrow> rng \<Rightarrow> featureData response \<times> rng" where
  "extractFeatures audioFile transcription g =
     (let (r1, g1) = random g; (r2, g2) = random g1; (r3, g3) = random g2;
          (r4, g4) = random g3; (r5, g5) = random g4; (r6, g6) = random g5;
          (r7, g7) = random g6; (r8, g8) = random g7;
          features =
            [(''hesitation_count'', of_int \<lfloor>r1 * 10\<rfloor>),
             (''pause_count'', of_int \<lfloor>r2 * 8\<rfloor>),
             (''speech_rate'', 2 + r3 * 2),
             (''pitch_variability'', 800 + r4 * 300),
             (''semantic_anomaly'', 0.1 + r5 * 0.2),
             (''vague_word_count'', of_int \<lfloor>r6 * 3\<rfloor>),
             (''incomplete_sentence'', if 0.8 < r7 then 1 else 0),
             (''lost_words'', of_int \<lfloor>r8 * 5\<rfloor>)]
      in (Inr \<lparr>fe_file = audioFile, fe_features = features\<rparr>, g8))"

text \<open>
  \<^verbatim>\<open>runAnalysisModel\<close> reads \<^verbatim>\<open>settings.modelType\<close> and nothing else of its
  arguments. The third random number is drawn only for a file at risk; it lies in
  \<open>[0, 1)\<close>, so \<^verbatim>\<open>slice(0, n)\<close> keeps the first \<open>n\<close> entries.
\<close>

definition runAnalysisModel :: "numObject \<Rightarrow> settings \<Rightarrow> rng \<Rightarrow> analysisData response \<times> rng" where
  "runAnalysisModel features settings g =
     (let (r1, g1) = random g;
          isAtRisk = (0.7 < r1);
          (r2, g2) = random g1;
          (indicators, g3) =
            (if isAtRisk
             then (let (r3, g') = random g2
                   in (take (nat (\<lfloor>r3 * 3\<rfloor> + 1))
                         [''Hesitation'', ''Semantic Anomaly'', ''Slow Speech Rate''], g'))
             else ([''Normal Speech Pattern''], g2))
      in (Inr \<lparr>risk_status = (if isAtRisk then ''At Risk'' else ''Normal''),
               confidence = 0.7 + r2 * 0.25,
               model_used = modelType settings,
               key_indicators = indicators,
               analysis_notes =
                 (if isAtRisk
                  then [''Higher than normal hesitation frequency detected'',
                        ''Semantic coherence is below average'',
                        ''Speech patterns show potential cognitive indicators'']
                  else [''Speech patterns within normal range'',
                        ''No significant cognitive indicators detected''])\<rparr>, g3))"

subsection \<open>processAudioPipeline\<close>

text \<open>
  The orchestrator is modelled over a table of stages, so that its reaction to a failing
  stage can be stated: \<open>'w\<close> is whatever the stages read and change (for the stages
  above, the random numbers). The event list \<open>evs\<close> collects the arguments of the \<^verbatim>\<open>updateProgress\<close>
  calls in order; the callback itself is assumed not to throw, and \<^verbatim>\<open>console.error\<close>
  is left out.
\<close>

record 'w stages =
  stPreprocess :: "audioFile \<Rightarrow> 'w \<Rightarrow> preprocessData response \<times> 'w"
  stTranscribe :: "audioFile \<Rightarrow> string \<Rightarrow> 'w \<Rightarrow> transcriptionData response \<times> 'w"
  stExtract :: "audioFile \<Rightarrow> string \<Rightarrow> 'w \<Rightarrow> featureData response \<times> 'w"
  stAnalyse :: "numObject \<Rightarrow> settings \<Rightarrow> 'w \<Rightarrow> analysisData response \<times> 'w"

definition sourceStages :: "rng stages" where
  "sourceStages =
     \<lparr>stPreprocess = preprocessAudio, stTranscribe = transcribeAudio,
      stExtract = extractFeatures, stAnalyse = runAnalysisModel\<rparr>"

definition stepStart :: "nat \<Rightarrow> string \<Rightarrow> progressEvent" where
  "stepStart k n = \<lparr>currentStep = Some k, stepName = Some n, progress = 0\<rparr>"

definition stepDone :: progressEvent where
  "stepDone = \<lparr>currentStep = None, stepName = None, progress = 100\<rparr>"

text \<open>Decimal digits of a number, for the template literal \<^verbatim>\<open>`result-${i}`\<close>.\<close>

fun showNat :: "nat \<Rightarrow> string" where
  "showNat n =
     (if n < 10 then [char_of (48 + n)] else showNat (n div 10) @ [char_of (48 + n mod 10)])"

declare showNat.simps [simp del]

text \<open>
  One pass of the loop body for the file with index \<open>i\<close> in a batch of \<open>len\<close> files. \<open>Inl msg\<close> is
  \<^verbatim>\<open>throw new Error(msg)\<close>: nothing after the throw is executed.
\<close>

definition processFile ::
  "'w stages \<Rightarrow> settings \<Rightarrow> nat \<Rightarrow> nat \<Rightarrow> audioFile \<Rightarrow> 'w \<Rightarrow> progressEvent list
   \<Rightarrow> analysisResult response \<times> 'w \<times> progressEvent list" where
  "processFile st settings len i audioFile w evs =
     (let evs1 = evs @ [stepStart 1 ''Preprocessing Audio'']
      in case stPreprocess st audioFile w of
           (Inl err, w1) \<Rightarrow> (Inl err, w1, evs1)
         | (Inr preprocessedAudio, w1) \<Rightarrow>
      let evs2 = evs1 @ [stepDone, stepStart 2 ''Transcribing Audio'']
      in case stTranscribe st audioFile (transcriptionModel settings) w1 of
           (Inl err, w2) \<Rightarrow> (Inl err, w2, evs2)
         | (Inr transcriptionResult, w2) \<Rightarrow>
      let evs3 = evs2 @ [stepDone, stepStart 3 ''Extracting Features'']
      in case stExtract st audioFile (tr_transcription transcriptionResult) w2 of
           (Inl err, w3) \<Rightarrow> (Inl err, w3, evs3)
         | (Inr featuresResult, w3) \<Rightarrow>
      let evs4 = evs3 @ [stepDone, stepStart 4 ''Running Analysis Model'']
      in case stAnalyse st (fe_features featuresResult) settings w3 of
           (Inl err, w4) \<Rightarrow> (Inl err, w4, evs4)
         | (Inr analysisResult, w4) \<Rightarrow>
      let result =
            \<lparr>result_id = ''result-'' @ showNat i,
             file_name = name audioFile,
             res_risk_status = risk_status analysisResult,
             res_confidence = confidence analysisResult,
             res_key_indicators = key_indicators analysisResult,
             res_features = fe_features featuresResult,
             res_transcription = tr_transcription transcriptionResult,
             res_analysis_notes = analysis_notes analysisResult\<rparr>;
          evs5 = evs4 @ [stepDone,
                         \<lparr>currentStep = Some 5, stepName = Some ''Compiling Results'',
                          progress = real (i + 1) / real len * 100\<rparr>]
      in (Inr result, w4, evs5))"

text \<open>The \<^verbatim>\<open>for\<close> loop over the batch; a throw leaves the loop.\<close>

fun pipelineLoop ::
  "'w stages \<Rightarrow> settings \<Rightarrow> nat \<Rightarrow> nat \<Rightarrow> audioFile list \<Rightarrow> analysisResult list \<Rightarrow> 'w
   \<Rightarrow> progressEvent list \<Rightarrow> analysisResult list response \<times> 'w \<times> progressEvent list" where
  "pipelineLoop st settings len i [] results w evs = (Inr results, w, evs)"
| "pipelineLoop st settings len i (audioFile # rest) results w evs =
     (case processFile st settings len i audioFile w evs of
        (Inl err, w', evs') \<Rightarrow> (Inl err, w', evs')
      | (Inr result, w', evs') \<Rightarrow>
          pipelineLoop st settings len (i + 1) rest (results @ [result]) w' evs')"

text \<open>
  The whole function: the \<^verbatim>\<open>catch\<close> turns a throw into a failure answer whose text
  is the thrown message behind a fixed prefix.
\<close>

definition processAudioPipelineWith ::
  "'w stages \<Rightarrow> audioFile list \<Rightarrow> settings \<Rightarrow> 'w
   \<Rightarrow> analysisResult list response \<times> 'w \<times> progressEvent list" where
  "processAudioPipelineWith st audioFiles settings w =
     (case pipelineLoop st settings (length audioFiles) 0 audioFiles [] w [] of
        (Inl err, w', evs) \<Rightarrow> (Inl (''Error in audio processing pipeline: '' @ err), w', evs)
      | (Inr results, w', evs) \<Rightarrow> (Inr results, w', evs))"

definition processAudioPipeline ::
  "audioFile list \<Rightarrow> settings \<Rightarrow> rng \<Rightarrow> analysisResult list response \<times> rng \<times> progressEvent list" where
  "processAudioPipeline = processAudioPipelineWith sourceStages"

section \<open>Notions of the specification\<close>

text \<open>
  The specification counts \<^emph>\<open>whitespace-delimited non-empty tokens\<close>: the maximal runs
  of characters that are not white space, from left to right.
\<close>

function tokensOf :: "string \<Rightarrow> string list" where
  "tokensOf s =
     (case dropWhile isSpace s of
        [] \<Rightarrow> []
      | c # cs \<Rightarrow> (c # takeWhile (\<lambda>x. \<not> isSpace x) cs) # tokensOf (dropWhile (\<lambda>x. \<not> isSpace x) cs))"
  by pat_completeness auto
termination
proof (relation "measure length")
  show "wf (measure length)" by simp
next
  fix s :: string and c cs
  assume d: "dropWhile isSpace s = c # cs"
  have "length (dropWhile (\<lambda>x. \<not> isSpace x) cs) \<le> length cs"
    by (rule length_dropWhile_le)
  moreover have "length (c # cs) \<le> length s"
    using length_dropWhile_le[of isSpace s] d by simp
  ultimately show "(dropWhile (\<lambda>x. \<not> isSpace x) cs, s) \<in> measure length" by simp
qed

declare tokensOf.simps [simp del]


text \<open>
  The weighted average as the specification words it: the keys that are present in both
  objects and carry a weight above zero, and the quotient of the two sums over them
  (0 when there is no such key).
\<close>

definition overlapKeys :: "numObject \<Rightarrow> numObject \<Rightarrow> string set" where
  "overlapKeys f w = {k \<in> fst ` set f. \<exists>x. map_of w k = Some x \<and> 0 < x}"

definition weightedAverage :: "numObject \<Rightarrow> numObject \<Rightarrow> real" where
  "weightedAverage f w =
     (if overlapKeys f w = {} then 0
      else (\<Sum>k\<in>overlapKeys f w. the (map_of f k) * the (map_of w k))
           / (\<Sum>k\<in>overlapKeys f w. the (map_of w k)))"

text \<open>
  A key with an own weight that is not zero, and the keys of \<open>f\<close> of this kind. An
  object has plain keys towards \<open>w\<close> when none of its keys names a member of
  \<^verbatim>\<open>Object.prototype\<close> without being an own property of \<open>w\<close>.
\<close>

definition ownWeight :: "numObject \<Rightarrow> string \<Rightarrow> bool" where
  "ownWeight w k = (case map_of w k of None \<Rightarrow> False | Some x \<Rightarrow> x \<noteq> 0)"

definition weightedKeys :: "numObject \<Rightarrow> numObject \<Rightarrow> string set" where
  "weightedKeys f w = {k \<in> fst ` set f. ownWeight w k}"

definition plainKeys :: "numObject \<Rightarrow> numObject \<Rightarrow> bool" where
  "plainKeys f w =
     list_all (\<lambda>k. k \<in> fst ` set w \<or> k \<notin> set objectPrototypeNames) (map fst f)"

text \<open>
  Incomplete sentences as the specification words them: the sentences are the pieces
  between runs of \<^verbatim>\<open>.\<close>, \<^verbatim>\<open>!\<close> and \<^verbatim>\<open>?\<close> that are not empty or white space
  only; one is incomplete if it has fewer than three tokens or its last word is a
  dangling conjunction.
\<close>

definition incompleteSentences_spec :: "string \<Rightarrow> nat" where
  "incompleteSentences_spec t =
     length (filter (\<lambda>s. length (tokensOf s) < 3 \<or> endsWithConjunction None (trim s))
               (filter (\<lambda>s. trim s \<noteq> []) (splitOn isTerminator t)))"

text \<open>
  The anomaly model on a batch of feature vectors: one call of \<^verbatim>\<open>runAnalysisModel\<close>
  per vector, in order, as the pipeline makes them; and the fraction of the answers
  labelled \<^verbatim>\<open>At Risk\<close>.
\<close>

primrec analyzeBatch :: "numObject list \<Rightarrow> settings \<Rightarrow> rng \<Rightarrow> analysisData response list" where
  "analyzeBatch [] settings g = []"
| "analyzeBatch (features # rest) settings g =
     (case runAnalysisModel features settings g of (r, g') \<Rightarrow> r # analyzeBatch rest settings g')"

definition isAtRisk :: "analysisData response \<Rightarrow> bool" where
  "isAtRisk r = (case r of Inl _ \<Rightarrow> False | Inr d \<Rightarrow> risk_status d = ''At Risk'')"

definition atRiskFraction :: "analysisData response list \<Rightarrow> real" where
  "atRiskFraction rs = real (length (filter isAtRisk rs)) / real (length rs)"

text \<open>
  The settings of the application's initial state (isolation-forest mode, all feature
  weights 1), with the contamination as a parameter.
\<close>

definition isolationForest :: "real \<Rightarrow> settings" where
  "isolationForest c =
     \<lparr>modelType = ''isolation_forest'', contamination = c,
      featureWeights =
        [(''hesitation_count'', 1), (''pause_count'', 1), (''speech_rate'', 1),
         (''pitch_variability'', 1), (''semantic_anomaly'', 1), (''vague_word_count'', 1),
         (''incomplete_sentence'', 1), (''lost_words'', 1)],
      transcriptionModel = ''wav2vec2''\<rparr>"

text \<open>
  The progress events of one file that passes all stages, and the stage that fails first
  for a file (with its message and the state it leaves), each stage fed as the loop body
  feeds it.
\<close>

definition fileEvents :: "nat \<Rightarrow> nat \<Rightarrow> progressEvent list" where
  "fileEvents len i =
     [stepStart 1 ''Preprocessing Audio'', stepDone,
      stepStart 2 ''Transcribing Audio'', stepDone,
      stepStart 3 ''Extracting Features'', stepDone,
      stepStart 4 ''Running Analysis Model'', stepDone,
      \<lparr>currentStep = Some 5, stepName = Some ''Compiling Results'',
       progress = real (i + 1) / real len * 100\<rparr>]"

definition firstFailure :: "'w stages \<Rightarrow> settings \<Rightarrow> audioFile \<Rightarrow> 'w \<Rightarrow> (nat \<times> string \<times> 'w) option" where
  "firstFailure st settings audioFile w =
     (case stPreprocess st audioFile w of
        (Inl err, w1) \<Rightarrow> Some (1, err, w1)
      | (Inr pre, w1) \<Rightarrow>
     (case stTranscribe st audioFile (transcriptionModel settings) w1 of
        (Inl err, w2) \<Rightarrow> Some (2, err, w2)
      | (Inr tr, w2) \<Rightarrow>
     (case stExtract st audioFile (tr_transcription tr) w2 of
        (Inl err, w3) \<Rightarrow> Some (3, err, w3)
      | (Inr fe, w3) \<Rightarrow>
     (case stAnalyse st (fe_features fe) settings w3 of
        (Inl err, w4) \<Rightarrow> Some (4, err, w4)
      | (Inr an, w4) \<Rightarrow> None))))"

text \<open>
  The stages of the source never fail. To exercise the failure branches of the
  orchestrator, \<open>rejecting bad\<close> is the source's stage table with a preprocessing stage
  that answers the file named \<open>bad\<close> the way the \<^verbatim>\<open>catch\<close> branch of
  \<^verbatim>\<open>preprocessAudio\<close> would.
\<close>

definition rejecting :: "string \<Rightarrow> rng stages" where
  "rejecting bad =
     sourceStages\<lparr>stPreprocess :=
       (\<lambda>audioFile g.
          if name audioFile = bad then (Inl ''Error preprocessing audio: corrupt'', g)
          else preprocessAudio audioFile g)\<rparr>"

section \<open>Properties\<close>

subsection \<open>Splitting and lower case\<close>

lemma tokensOf_Nil: "tokensOf [] = []"
  by (simp add: tokensOf.simps)

lemma tokensOf_dropWhile: "tokensOf (dropWhile isSpace s) = tokensOf s"
  by (subst tokensOf.simps, subst (2) tokensOf.simps) simp

lemma tokensOf_start:
  assumes "s \<noteq> []" and "\<not> isSpace (hd s)"
  shows "tokensOf s = takeWhile (\<lambda>x. \<not> isSpace x) s # tokensOf (dropWhile (\<lambda>x. \<not> isSpace x) s)"
proof -
  from assms obtain c cs where s: "s = c # cs" and c: "\<not> isSpace c" by (cases s) auto
  show ?thesis using c by (subst tokensOf.simps) (simp add: s)
qed

lemma splitOn_step:
  "dropWhile (\<lambda>c. \<not> sep c) s \<noteq> [] \<Longrightarrow>
   splitOn sep s = takeWhile (\<lambda>c. \<not> sep c) s
                     # splitOn sep (dropWhile sep (dropWhile (\<lambda>c. \<not> sep c) s))"
  by (subst splitOn.simps) (simp only: Let_def if_False)

lemma splitOn_last:
  "dropWhile (\<lambda>c. \<not> sep c) s = [] \<Longrightarrow> splitOn sep s = [s]"
proof -
  assume a: "dropWhile (\<lambda>c. \<not> sep c) s = []"
  then have "takeWhile (\<lambda>c. \<not> sep c) s = s"
    using takeWhile_dropWhile_id[of "\<lambda>c. \<not> sep c" s] by (simp only: append_Nil2)
  then show ?thesis using a
    by (subst splitOn.simps) (simp only: Let_def simp_thms if_True)
qed

lemma splitOn_tokens:
  "filter (\<lambda>w. w \<noteq> []) (splitOn isSpace s) = tokensOf s"
proof (induction isSpace s rule: splitOn.induct)
  case (1 s)
  let ?tok = "takeWhile (\<lambda>c. \<not> isSpace c) s"
  let ?rest = "dropWhile (\<lambda>c. \<not> isSpace c) s"
  show ?case
  proof (cases "?rest = []")
    case True
    then have sp: "splitOn isSpace s = [s]" by (rule splitOn_last)
    show ?thesis
    proof (cases "s = []")
      case True
      then show ?thesis using sp by (simp add: tokensOf_Nil)
    next
      case False
      have "\<not> isSpace (hd s)" using True False by (cases s) auto
      then have "tokensOf s = takeWhile (\<lambda>c. \<not> isSpace c) s # tokensOf ?rest"
        by (rule tokensOf_start[OF False])
      moreover have "takeWhile (\<lambda>c. \<not> isSpace c) s = s"
        using True takeWhile_dropWhile_id[of "\<lambda>c. \<not> isSpace c" s] by (simp only: append_Nil2)
      ultimately have "tokensOf s = [s]" using True by (simp only: tokensOf_Nil)
      then show ?thesis using sp False by (simp only: filter.simps not_False_eq_True if_True)
    qed
  next
    case False
    have sp: "splitOn isSpace s = ?tok # splitOn isSpace (dropWhile isSpace ?rest)"
      using False by (rule splitOn_step)
    have ih: "filter (\<lambda>w. w \<noteq> []) (splitOn isSpace (dropWhile isSpace ?rest))
              = tokensOf (dropWhile isSpace ?rest)"
      by (rule 1[OF refl refl False])
    show ?thesis
    proof (cases "?tok = []")
      case True
      then have "?rest = s" using takeWhile_dropWhile_id[of "\<lambda>c. \<not> isSpace c" s]
        by (simp only: append_Nil)
      then have "tokensOf (dropWhile isSpace ?rest) = tokensOf s"
        by (simp only: tokensOf_dropWhile)
      then show ?thesis using sp ih True by (simp only: filter.simps simp_thms if_False)
    next
      case tokne: False
      then have sne: "s \<noteq> []" by auto
      have "\<not> isSpace (hd s)" using tokne sne by (cases s) (auto split: if_splits)
      then have "tokensOf s = ?tok # tokensOf ?rest" by (rule tokensOf_start[OF sne])
      then show ?thesis using sp ih tokne
        by (simp only: filter.simps tokensOf_dropWhile simp_thms if_True)
    qed
  qed
qed

lemma toLowerChar_idem: "toLowerChar (toLowerChar c) = toLowerChar c"
proof -
  have "of_char c < (256::nat)" by simp
  then show ?thesis unfolding toLowerChar_def Let_def by (auto simp: )
qed

lemma isSpace_toLowerChar: "isSpace (toLowerChar c) = isSpace c"
  unfolding toLowerChar_def isSpace_def Let_def by auto

lemma splitOn_toLowerCase:
  "splitOn isSpace (toLowerCase s) = map toLowerCase (splitOn isSpace s)"
proof (induction isSpace s rule: splitOn.induct)
  case (1 s)
  let ?rest = "dropWhile (\<lambda>c. \<not> isSpace c) s"
  have tw: "takeWhile (\<lambda>c. \<not> isSpace c) (toLowerCase s) = toLowerCase (takeWhile (\<lambda>c. \<not> isSpace c) s)"
    by (simp add: toLowerCase_def takeWhile_map comp_def isSpace_toLowerChar)
  have dw: "dropWhile (\<lambda>c. \<not> isSpace c) (toLowerCase s) = toLowerCase ?rest"
    by (simp add: toLowerCase_def dropWhile_map comp_def isSpace_toLowerChar)
  have dw2: "dropWhile isSpace (toLowerCase ?rest) = toLowerCase (dropWhile isSpace ?rest)"
    by (simp add: toLowerCase_def dropWhile_map comp_def isSpace_toLowerChar)
  show ?case
  proof (cases "?rest = []")
    case True
    then have "dropWhile (\<lambda>c. \<not> isSpace c) (toLowerCase s) = []"
      by (simp only: dw) (simp add: toLowerCase_def)
    then have "splitOn isSpace (toLowerCase s) = [toLowerCase s]" by (rule splitOn_last)
    moreover have "splitOn isSpace s = [s]" using True by (rule splitOn_last)
    ultimately show ?thesis by (simp only: list.map)
  next
    case False
    then have ne: "dropWhile (\<lambda>c. \<not> isSpace c) (toLowerCase s) \<noteq> []"
      by (simp only: dw) (simp add: toLowerCase_def)
    have ih: "splitOn isSpace (toLowerCase (dropWhile isSpace ?rest))
              = map toLowerCase (splitOn isSpace (dropWhile isSpace ?rest))"
      by (rule 1[OF refl refl False])
    have "splitOn isSpace (toLowerCase s)
          = toLowerCase (takeWhile (\<lambda>c. \<not> isSpace c) s) # splitOn isSpace (toLowerCase (dropWhile isSpace ?rest))"
      using splitOn_step[OF ne] by (simp only: tw dw dw2)
    moreover have "splitOn isSpace s
          = takeWhile (\<lambda>c. \<not> isSpace c) s # splitOn isSpace (dropWhile isSpace ?rest)"
      using False by (rule splitOn_step)
    ultimately show ?thesis using ih by (simp only: list.map)
  qed
qed

lemma lexicon_filter_nonempty:
  assumes "[] \<notin> L" and "f [] = []"
  shows "filter (\<lambda>w. f w \<in> L) (filter (\<lambda>w. w \<noteq> []) ws) = filter (\<lambda>w. f w \<in> L) ws"
  using assms by (induction ws) auto

lemma falsy_toLowerCase: "falsy (Some (toLowerCase s)) = falsy (Some s)"
  by (simp add: falsy_def toLowerCase_def)

lemma toLowerCase_idem: "toLowerCase (toLowerCase s) = toLowerCase s"
  by (simp add: toLowerCase_def toLowerChar_idem)


subsection \<open>Speech rate\<close>

text \<open>
  Claim C4. For every transcription and duration, \<^verbatim>\<open>calculateSpeechRate\<close> is 0 when
  the transcription is \<^verbatim>\<open>null\<close> or empty or the duration is at most 0, and otherwise
  it is the number of whitespace-delimited non-empty tokens divided by the duration in
  minutes (the duration in seconds over 60).
\<close>

theorem calculateSpeechRate_tokens:
  "calculateSpeechRate t d =
     (if t = None \<or> t = Some [] \<or> d \<le> 0 then 0
      else real (length (tokensOf (the t))) / (d / 60))"
  by (cases t) (simp_all add: calculateSpeechRate_def falsy_def Let_def splitOn_tokens)

theorem calculateSpeechRate_tokens_witness:
  "calculateSpeechRate (Some ''a b  c '') 30 = 6 \<and> length (tokensOf ''a b  c '') = 3
   \<and> calculateSpeechRate (Some ''a b'') 0 = 0 \<and> calculateSpeechRate (Some []) 30 = 0
   \<and> calculateSpeechRate None 30 = 0"
proof -
  have "length (tokensOf ''a b  c '') = 3" by code_simp
  then show ?thesis
    using calculateSpeechRate_tokens[of "Some ''a b  c ''" 30]
      calculateSpeechRate_tokens[of "Some ''a b''" 0]
      calculateSpeechRate_tokens[of "Some []" 30]
      calculateSpeechRate_tokens[of None 30]
    by simp
qed

subsection \<open>Hesitations\<close>

text \<open>
  Claim C8. \<^verbatim>\<open>countHesitations\<close> is case-insensitive: a transcription and its lower
  case have the same count, and the count is the number of whitespace-delimited tokens
  whose lower case is one of "uh", "um", "er", "ah", "hmm", "ehm".
\<close>

theorem countHesitations_case_insensitive:
  "countHesitations (Some s) = countHesitations (Some (toLowerCase s)) \<and>
   countHesitations (Some s)
     = length (filter (\<lambda>w. toLowerCase w \<in> set hesitationWords) (tokensOf s))"
proof -
  have ne: "[] \<notin> set hesitationWords" by (simp add: hesitationWords_def)
  have "filter (\<lambda>w. w \<in> set hesitationWords) (splitOn isSpace (toLowerCase s))
        = map toLowerCase (filter (\<lambda>w. toLowerCase w \<in> set hesitationWords) (splitOn isSpace s))"
    by (simp add: splitOn_toLowerCase filter_map comp_def)
  also have "filter (\<lambda>w. toLowerCase w \<in> set hesitationWords) (splitOn isSpace s)
        = filter (\<lambda>w. toLowerCase w \<in> set hesitationWords) (tokensOf s)"
    using lexicon_filter_nonempty[OF ne, of toLowerCase "splitOn isSpace s"]
    by (simp only: splitOn_tokens toLowerCase_def list.map)
  finally have cnt: "length (filter (\<lambda>w. w \<in> set hesitationWords) (splitOn isSpace (toLowerCase s)))
        = length (filter (\<lambda>w. toLowerCase w \<in> set hesitationWords) (tokensOf s))"
    by simp
  have two: "countHesitations (Some s)
     = length (filter (\<lambda>w. toLowerCase w \<in> set hesitationWords) (tokensOf s))"
    by (cases "s = []") (simp_all add: countHesitations_def falsy_def Let_def cnt tokensOf_Nil)
  have "countHesitations (Some (toLowerCase s)) = countHesitations (Some s)"
    by (simp add: countHesitations_def falsy_toLowerCase toLowerCase_idem Let_def)
  with two show ?thesis by simp
qed

theorem countHesitations_case_insensitive_witness:
  "countHesitations (Some ''UM'') = countHesitations (Some ''um'') \<and>
   countHesitations (Some ''UM'') = 1 \<and> toLowerCase ''UM'' = ''um''"
proof -
  have l: "toLowerCase ''UM'' = ''um''" by code_simp
  have c: "countHesitations (Some ''um'') = 1" by code_simp
  have "countHesitations (Some ''UM'') = countHesitations (Some (toLowerCase ''UM''))"
    using countHesitations_case_insensitive[of "''UM''"] by (rule conjunct1)
  with l c show ?thesis by simp
qed

subsection \<open>Risk score\<close>

lemma readProp_plain:
  assumes "k \<in> fst ` set w \<or> k \<notin> set objectPrototypeNames"
  shows "readProp w k = (case map_of w k of Some x \<Rightarrow> Own x | None \<Rightarrow> Undefined)"
proof (cases "map_of w k")
  case None
  then have "k \<notin> fst ` set w" by (simp add: map_of_eq_None_iff)
  then have "k \<notin> set objectPrototypeNames" using assms by simp
  then show ?thesis using None by (simp add: readProp_def)
next
  case (Some x)
  then show ?thesis by (simp add: readProp_def)
qed

lemma riskLoop_Poisoned: "riskLoop ks f w Poisoned = Poisoned"
  by (induction ks) simp_all

lemma riskLoop_sums:
  assumes "\<forall>k\<in>set ks. k \<in> fst ` set w \<or> k \<notin> set objectPrototypeNames"
  shows "riskLoop ks f w (Sums a b) =
     Sums (a + sum_list (map (\<lambda>k. the (map_of f k) * the (map_of w k))
                             (filter (ownWeight w) ks)))
          (b + sum_list (map (\<lambda>k. the (map_of w k)) (filter (ownWeight w) ks)))"
  using assms
proof (induction ks arbitrary: a b)
  case Nil
  then show ?case by simp
next
  case (Cons k ks)
  have rp: "readProp w k = (case map_of w k of Some x \<Rightarrow> Own x | None \<Rightarrow> Undefined)"
    using Cons.prems by (simp add: readProp_plain)
  have rest: "\<forall>k\<in>set ks. k \<in> fst ` set w \<or> k \<notin> set objectPrototypeNames"
    using Cons.prems by simp
  show ?case
  proof (cases "map_of w k")
    case None
    then show ?thesis
      using Cons.IH[OF rest] by (simp add: rp truthy_def ownWeight_def)
  next
    case (Some x)
    then show ?thesis
      using Cons.IH[OF rest] by (simp add: rp truthy_def ownWeight_def add.assoc)
  qed
qed

lemma sum_list_filter_keys:
  fixes h :: "string \<Rightarrow> real"
  assumes "distinct ks"
  shows "sum_list (map h (filter P ks)) = (\<Sum>k\<in>{k \<in> set ks. P k}. h k)"
proof -
  have "distinct (filter P ks)" using assms by simp
  then have "sum_list (map h (filter P ks)) = sum h (set (filter P ks))"
    by (rule sum_list_distinct_conv_sum_set)
  then show ?thesis by simp
qed

lemma calculateRiskScore_sums:
  assumes "distinct (map fst f)" and "plainKeys f w"
  shows "calculateRiskScore (Some f) (Some w) =
           (if 0 < (\<Sum>k\<in>weightedKeys f w. the (map_of w k))
            then (\<Sum>k\<in>weightedKeys f w. the (map_of f k) * the (map_of w k))
                 / (\<Sum>k\<in>weightedKeys f w. the (map_of w k))
            else 0)"
proof -
  have keys: "{k \<in> set (map fst f). ownWeight w k} = weightedKeys f w"
    by (simp add: weightedKeys_def)
  have plain: "\<forall>k\<in>set (map fst f). k \<in> fst ` set w \<or> k \<notin> set objectPrototypeNames"
    using assms(2) unfolding plainKeys_def list_all_iff .
  have "riskLoop (map fst f) f w (Sums 0 0) =
          Sums (\<Sum>k\<in>weightedKeys f w. the (map_of f k) * the (map_of w k))
               (\<Sum>k\<in>weightedKeys f w. the (map_of w k))"
    by (simp only: riskLoop_sums[OF plain] sum_list_filter_keys[OF assms(1)] keys add_0_left)
  then show ?thesis
    unfolding calculateRiskScore_def by simp
qed

lemma nonneg_weightedKeys:
  assumes "\<forall>k x. map_of w k = Some x \<longrightarrow> 0 \<le> x"
  shows "weightedKeys f w = overlapKeys f w"
proof -
  have "ownWeight w k = (\<exists>x. map_of w k = Some x \<and> 0 < x)" for k
  proof (cases "map_of w k")
    case None
    then show ?thesis by (simp add: ownWeight_def)
  next
    case (Some x)
    then have "0 \<le> x" using assms by simp
    then show ?thesis using Some by (auto simp: ownWeight_def)
  qed
  then show ?thesis by (simp add: weightedKeys_def overlapKeys_def)
qed

lemma overlapKeys_total_pos:
  assumes "overlapKeys f w \<noteq> {}"
  shows "0 < (\<Sum>k\<in>overlapKeys f w. the (map_of w k))"
proof (rule sum_pos)
  show "finite (overlapKeys f w)" by (simp add: overlapKeys_def)
  show "overlapKeys f w \<noteq> {}" by (rule assms)
  show "\<And>k. k \<in> overlapKeys f w \<Longrightarrow> 0 < the (map_of w k)"
    by (auto simp: overlapKeys_def)
qed

lemma riskLoop_no_overlap:
  assumes "set ks \<inter> fst ` set w = {}"
  shows "riskLoop ks f w (Sums a b) = Sums a b \<or> riskLoop ks f w (Sums a b) = Poisoned"
  using assms
proof (induction ks)
  case Nil
  then show ?case by simp
next
  case (Cons k ks)
  then have none: "map_of w k = None" by (simp add: map_of_eq_None_iff)
  have rest: "set ks \<inter> fst ` set w = {}" using Cons.prems by auto
  show ?case
  proof (cases "k \<in> set objectPrototypeNames")
    case True
    then show ?thesis
      using none by (simp add: readProp_def truthy_def riskLoop_Poisoned)
  next
    case False
    then show ?thesis
      using none Cons.IH[OF rest] by (simp add: readProp_def truthy_def)
  qed
qed

lemma calculateRiskScore_no_overlap:
  assumes "fst ` set f \<inter> fst ` set w = {}"
  shows "calculateRiskScore (Some f) (Some w) = 0"
proof -
  have "set (map fst f) \<inter> fst ` set w = {}" using assms by simp
  then have "riskLoop (map fst f) f w (Sums 0 0) = Sums 0 0 \<or>
             riskLoop (map fst f) f w (Sums 0 0) = Poisoned"
    by (rule riskLoop_no_overlap)
  then show ?thesis by (auto simp: calculateRiskScore_def)
qed

text \<open>
  A feature key that names a member of \<^verbatim>\<open>Object.prototype\<close> and has no own weight
  poisons the sums: for \<^verbatim>\<open>{constructor:5, a:2}\<close> and \<^verbatim>\<open>{a:1}\<close> the function
  returns 0.
\<close>

lemma calculateRiskScore_inherited_member:
  "calculateRiskScore (Some [(''constructor'', 5), (''a'', 2)]) (Some [(''a'', 1)]) = 0"
  by (simp add: calculateRiskScore_def readProp_def truthy_def objectPrototypeNames_def)

text \<open>
  Claim C1, amended. For plain objects in which no feature key names a member of
  \<^verbatim>\<open>Object.prototype\<close> unless the weight object has that key itself,
  \<^verbatim>\<open>calculateRiskScore\<close> sums over the keys present in both objects whose weight is not
  zero (a negative weight counts as well) and returns the quotient of the weighted sum
  and the weight total when that total is above zero, and 0 otherwise. When no weight is
  negative this is the weighted average over the keys with a weight above zero. The
  result is 0 when no key is shared, when the weight object is empty, and when either
  argument is \<^verbatim>\<open>null\<close>; and \<^verbatim>\<open>calculateRiskScore({a:10,b:20}, {a:1,b:1})\<close> is 15.
\<close>

theorem calculateRiskScore_weighted:
  "(distinct (map fst f) \<and> plainKeys f w \<longrightarrow>
      calculateRiskScore (Some f) (Some w) =
        (if 0 < (\<Sum>k\<in>weightedKeys f w. the (map_of w k))
         then (\<Sum>k\<in>weightedKeys f w. the (map_of f k) * the (map_of w k))
              / (\<Sum>k\<in>weightedKeys f w. the (map_of w k))
         else 0)) \<and>
   (distinct (map fst f) \<and> plainKeys f w \<and> (\<forall>k x. map_of w k = Some x \<longrightarrow> 0 \<le> x) \<longrightarrow>
      calculateRiskScore (Some f) (Some w) = weightedAverage f w) \<and>
   (fst ` set f \<inter> fst ` set w = {} \<longrightarrow> calculateRiskScore (Some f) (Some w) = 0) \<and>
   calculateRiskScore (Some f) (Some []) = 0 \<and>
   calculateRiskScore features None = 0 \<and>
   calculateRiskScore None weights = 0 \<and>
   calculateRiskScore (Some [(''a'', 10), (''b'', 20)]) (Some [(''a'', 1), (''b'', 1)]) = 15"
proof -
  have one: "calculateRiskScore (Some f) (Some w) =
        (if 0 < (\<Sum>k\<in>weightedKeys f w. the (map_of w k))
         then (\<Sum>k\<in>weightedKeys f w. the (map_of f k) * the (map_of w k))
              / (\<Sum>k\<in>weightedKeys f w. the (map_of w k))
         else 0)" if "distinct (map fst f)" and "plainKeys f w"
    using that by (rule calculateRiskScore_sums)
  have two: "calculateRiskScore (Some f) (Some w) = weightedAverage f w"
    if d: "distinct (map fst f)" and p: "plainKeys f w"
      and nn: "\<forall>k x. map_of w k = Some x \<longrightarrow> 0 \<le> x"
  proof (cases "overlapKeys f w = {}")
    case True
    then show ?thesis
      using calculateRiskScore_sums[OF d p] nonneg_weightedKeys[OF nn, of f]
      by (simp add: weightedAverage_def)
  next
    case False
    then show ?thesis
      using calculateRiskScore_sums[OF d p] nonneg_weightedKeys[OF nn, of f]
        overlapKeys_total_pos[OF False]
      by (simp add: weightedAverage_def)
  qed
  have three: "calculateRiskScore (Some f) (Some w) = 0" if "fst ` set f \<inter> fst ` set w = {}"
    using that by (rule calculateRiskScore_no_overlap)
  have four: "calculateRiskScore (Some f) (Some []) = 0"
    by (rule calculateRiskScore_no_overlap) simp
  have five: "calculateRiskScore features None = 0"
    by (cases features) (simp_all add: calculateRiskScore_def)
  have six: "calculateRiskScore None weights = 0"
    by (simp add: calculateRiskScore_def)
  have seven: "calculateRiskScore (Some [(''a'', 10), (''b'', 20)]) (Some [(''a'', 1), (''b'', 1)]) = 15"
    by (simp add: calculateRiskScore_def readProp_def truthy_def)
  from one two three four five six seven show ?thesis by blast
qed

theorem calculateRiskScore_weighted_witness:
  "distinct (map fst [(''a'', 10::real), (''b'', 20)]) \<and>
   plainKeys [(''a'', 10), (''b'', 20)] [(''a'', 1), (''b'', 1)] \<and>
   plainKeys [(''toString'', 10), (''b'', 20)] [(''toString'', 1), (''b'', 3)] \<and>
   fst ` set [(''a'', 10::real), (''b'', 20)] \<inter> fst ` set [(''c'', 1::real)] = {} \<and>
   weightedAverage [(''a'', 10), (''b'', 20)] [(''a'', 1), (''b'', 1)] = 15 \<and>
   calculateRiskScore (Some [(''toString'', 10), (''b'', 20)]) (Some [(''toString'', 1), (''b'', 3)])
     = weightedAverage [(''toString'', 10), (''b'', 20)] [(''toString'', 1), (''b'', 3)] \<and>
   calculateRiskScore (Some [(''a'', 10), (''b'', 20)]) (Some [(''c'', 1)]) = 0"
proof -
  have d: "distinct (map fst [(''a'', 10::real), (''b'', 20)])" by simp
  have d2: "distinct (map fst [(''toString'', 10::real), (''b'', 20)])" by simp
  have p: "plainKeys [(''a'', 10), (''b'', 20)] [(''a'', 1), (''b'', 1)]"
    by (simp add: plainKeys_def)
  have p2: "plainKeys [(''toString'', 10), (''b'', 20)] [(''toString'', 1), (''b'', 3)]"
    by (simp add: plainKeys_def)
  have nn: "\<forall>k x. map_of [(''a'', 1::real), (''b'', 1)] k = Some x \<longrightarrow> 0 \<le> x"
    by (simp split: if_splits)
  have nn2: "\<forall>k x. map_of [(''toString'', 1::real), (''b'', 3)] k = Some x \<longrightarrow> 0 \<le> x"
    by (simp split: if_splits)
  have no: "fst ` set [(''a'', 10::real), (''b'', 20)] \<inter> fst ` set [(''c'', 1::real)] = {}"
    by simp
  note t1 = calculateRiskScore_weighted[of "[(''a'', 10), (''b'', 20)]" "[(''a'', 1), (''b'', 1)]"]
  note t2 = calculateRiskScore_weighted[of "[(''a'', 10), (''b'', 20)]" "[(''c'', 1)]"]
  note t3 = calculateRiskScore_weighted[of "[(''toString'', 10), (''b'', 20)]" "[(''toString'', 1), (''b'', 3)]"]
  have "weightedAverage [(''a'', 10), (''b'', 20)] [(''a'', 1), (''b'', 1)] = 15"
    using t1 d p nn by metis
  moreover have "calculateRiskScore (Some [(''a'', 10), (''b'', 20)]) (Some [(''c'', 1)]) = 0"
    using t2 no by blast
  moreover have "calculateRiskScore (Some [(''toString'', 10), (''b'', 20)]) (Some [(''toString'', 1), (''b'', 3)])
     = weightedAverage [(''toString'', 10), (''b'', 20)] [(''toString'', 1), (''b'', 3)]"
    using t3 d2 p2 nn2 by blast
  ultimately show ?thesis using d p p2 no by blast
qed

text \<open>
  With a negative weight the result differs from the weighted average over the keys of
  positive weight: for \<^verbatim>\<open>{a:10,b:20}\<close> and \<^verbatim>\<open>{a:-1,b:3}\<close> the function returns
  \<open>(-10 + 60) / 2 = 25\<close>, the average over the positive weights is \<open>60 / 3 = 20\<close>.
\<close>

theorem calculateRiskScore_negative_weight_counterexample:
  "calculateRiskScore (Some [(''a'', 10), (''b'', 20)]) (Some [(''a'', - 1), (''b'', 3)]) = 25 \<and>
   weightedAverage [(''a'', 10), (''b'', 20)] [(''a'', - 1), (''b'', 3)] = 20"
proof -
  have k: "overlapKeys [(''a'', 10), (''b'', 20)] [(''a'', - 1), (''b'', 3)] = {''b''}"
    by (auto simp: overlapKeys_def split: if_splits)
  have "weightedAverage [(''a'', 10), (''b'', 20)] [(''a'', - 1), (''b'', 3)] = 20"
    by (simp add: weightedAverage_def k)
  moreover have "calculateRiskScore (Some [(''a'', 10), (''b'', 20)]) (Some [(''a'', - 1), (''b'', 3)]) = 25"
    by (simp add: calculateRiskScore_def readProp_def truthy_def)
  ultimately show ?thesis by simp
qed

subsection \<open>Audio quality\<close>

text \<open>
  Claim C9. Whatever issues are detected, the quality score of \<^verbatim>\<open>checkAudioQuality\<close>
  is 0.95 minus 0.2 per detected issue, clamped into \<open>[0, 1]\<close>; it lies in \<open>[0, 1]\<close>
  and is 0.95 when no issue is detected.
\<close>

theorem checkAudioQuality_score:
  "qualityScore (fst (checkAudioQuality audioFile g))
     = min 1 (max 0 (0.95 - 0.2 * real (length (issues (fst (checkAudioQuality audioFile g)))))) \<and>
   0 \<le> qualityScore (fst (checkAudioQuality audioFile g)) \<and>
   qualityScore (fst (checkAudioQuality audioFile g)) \<le> 1 \<and>
   (issues (fst (checkAudioQuality audioFile g)) = [] \<longrightarrow>
      qualityScore (fst (checkAudioQuality audioFile g)) = 0.95)"
  by (simp add: checkAudioQuality_def random_def Let_def)

theorem checkAudioQuality_score_witness:
  "issues (fst (checkAudioQuality () (sconst 0))) = [] \<and>
   qualityScore (fst (checkAudioQuality () (sconst 0))) = 0.95 \<and>
   issues (fst (checkAudioQuality () (sconst 0.99))) = [''low_snr'', ''clipping'', ''distortion''] \<and>
   qualityScore (fst (checkAudioQuality () (sconst 0.99))) = 0.35"
proof -
  have a: "issues (fst (checkAudioQuality () (sconst 0))) = []"
    by (simp add: checkAudioQuality_def random_def)
  have b: "issues (fst (checkAudioQuality () (sconst 0.99))) = [''low_snr'', ''clipping'', ''distortion'']"
    by (simp add: checkAudioQuality_def random_def)
  show ?thesis
    using checkAudioQuality_score[of "()" "sconst 0"] checkAudioQuality_score[of "()" "sconst 0.99"] a b
    by simp
qed

subsection \<open>Normalisation\<close>

text \<open>
  Claim C10. \<^verbatim>\<open>normalizeFeatures\<close> is the identity: it returns the feature vector it
  is given, unchanged.
\<close>

theorem normalizeFeatures_identity: "normalizeFeatures f = f"
  by (simp add: normalizeFeatures_def)

subsection \<open>Null and empty transcriptions\<close>

text \<open>
  Claim C5, amended. The six functions \<^verbatim>\<open>calculateSpeechRate\<close>, \<^verbatim>\<open>countHesitations\<close>,
  \<^verbatim>\<open>countPauses\<close>, \<^verbatim>\<open>countVagueWords\<close>, \<^verbatim>\<open>detectIncompleteSentences\<close> and
  \<^verbatim>\<open>countLostWords\<close> depend on their arguments only and return 0 for a \<^verbatim>\<open>null\<close> or
  empty transcription. \<^verbatim>\<open>calculateSemanticAnomaly\<close> does not look at the
  transcription: it returns \<open>0.1 + 0.2 r\<close> for the next random number \<open>r\<close>, a value in
  \<open>[0.1, 0.3)\<close> and so never 0.
\<close>

theorem extractors_null_or_empty:
  "calculateSpeechRate None d = 0 \<and> calculateSpeechRate (Some []) d = 0 \<and>
   countHesitations None = 0 \<and> countHesitations (Some []) = 0 \<and>
   countPauses None = 0 \<and> countPauses (Some []) = 0 \<and>
   countVagueWords None = 0 \<and> countVagueWords (Some []) = 0 \<and>
   detectIncompleteSentences None = 0 \<and> detectIncompleteSentences (Some []) = 0 \<and>
   countLostWords None = 0 \<and> countLostWords (Some []) = 0 \<and>
   fst (calculateSemanticAnomaly t g) = 0.1 + shd g * 0.2 \<and>
   (0 \<le> shd g \<and> shd g < 1 \<longrightarrow>
      0.1 \<le> fst (calculateSemanticAnomaly t g) \<and> fst (calculateSemanticAnomaly t g) < 0.3)"
proof -
  have "calculateSpeechRate None d = 0" "calculateSpeechRate (Some []) d = 0"
    by (simp_all add: calculateSpeechRate_def falsy_def)
  moreover have "countHesitations None = 0" "countHesitations (Some []) = 0"
    by (simp_all add: countHesitations_def falsy_def)
  moreover have "countPauses None = 0" "countPauses (Some []) = 0"
    by (simp_all add: countPauses_def falsy_def)
  moreover have "countVagueWords None = 0" "countVagueWords (Some []) = 0"
    by (simp_all add: countVagueWords_def falsy_def)
  moreover have "detectIncompleteSentences None = 0" "detectIncompleteSentences (Some []) = 0"
    by (simp_all add: detectIncompleteSentences_def falsy_def)
  moreover have "countLostWords None = 0" "countLostWords (Some []) = 0"
    by (simp_all add: countLostWords_def falsy_def)
  moreover have "fst (calculateSemanticAnomaly t g) = 0.1 + shd g * 0.2"
    by (simp add: calculateSemanticAnomaly_def random_def)
  ultimately show ?thesis by simp
qed

theorem extractors_null_or_empty_witness:
  "0 \<le> shd (sconst (1/2 :: real)) \<and> shd (sconst (1/2 :: real)) < 1 \<and>
   fst (calculateSemanticAnomaly None (sconst (1/2))) = 0.2 \<and>
   0.1 \<le> fst (calculateSemanticAnomaly None (sconst (1/2))) \<and>
   fst (calculateSemanticAnomaly None (sconst (1/2))) < 0.3"
  using extractors_null_or_empty[of 1 None "sconst (1/2)"] by simp

text \<open>
  For a \<^verbatim>\<open>null\<close> transcription \<^verbatim>\<open>calculateSemanticAnomaly\<close> does not return 0, and
  two calls on the same input give different results.
\<close>

theorem calculateSemanticAnomaly_counterexample:
  "fst (calculateSemanticAnomaly None (sconst 0)) = 0.1 \<and>
   fst (calculateSemanticAnomaly None (sconst (1/2))) = 0.2 \<and>
   fst (calculateSemanticAnomaly (Some []) (sconst 0)) \<noteq> 0"
  by (simp add: calculateSemanticAnomaly_def random_def)

subsection \<open>Incomplete sentences\<close>

text \<open>
  Claim C7. \<^verbatim>\<open>detectIncompleteSentences\<close> should count the sentences with fewer than
  three tokens or a dangling conjunction at the end. The two examples of the claim hold:
  "I went to the store and" counts 1 and "I went to the store." counts 0. The token test,
  however, counts the pieces of \<^verbatim>\<open>sentence.split(/\s+/)\<close> on the untrimmed sentence, so
  a sentence that follows a full stop and a space has an empty first piece: in
  "One two three. Go home." the two-word sentence " Go home" has three pieces and is not
  counted, while the specification's count is 1. The same two words at the start of the
  text are counted.
\<close>

theorem detectIncompleteSentences_leading_space:
  "detectIncompleteSentences (Some ''One two three. Go home.'') = 0 \<and>
   incompleteSentences_spec ''One two three. Go home.'' = 1 \<and>
   splitOn isSpace '' Go home'' = ['''', ''Go'', ''home''] \<and>
   tokensOf '' Go home'' = [''Go'', ''home''] \<and>
   detectIncompleteSentences (Some ''Go home. One two three.'') = 1 \<and>
   detectIncompleteSentences (Some ''I went to the store and'') = 1 \<and>
   detectIncompleteSentences (Some ''I went to the store.'') = 0"
proof -
  have "detectIncompleteSentences (Some ''One two three. Go home.'') = 0" by code_simp
  moreover have "incompleteSentences_spec ''One two three. Go home.'' = 1" by code_simp
  moreover have "splitOn isSpace '' Go home'' = ['''', ''Go'', ''home'']" by code_simp
  moreover have "tokensOf '' Go home'' = [''Go'', ''home'']" by code_simp
  moreover have "detectIncompleteSentences (Some ''Go home. One two three.'') = 1" by code_simp
  moreover have "detectIncompleteSentences (Some ''I went to the store and'') = 1" by code_simp
  moreover have "detectIncompleteSentences (Some ''I went to the store.'') = 0" by code_simp
  ultimately show ?thesis by (simp only: simp_thms)
qed

subsection \<open>Anomaly model\<close>

lemma runAnalysisModel_label:
  "isAtRisk (fst (runAnalysisModel features settings g)) = (0.7 < shd g)"
  by (simp add: runAnalysisModel_def random_def isAtRisk_def Let_def split: prod.splits)

lemma runAnalysisModel_rng:
  "snd (runAnalysisModel f1 s1 g) = snd (runAnalysisModel f2 s2 g)"
  by (simp add: runAnalysisModel_def random_def Let_def split: prod.splits)

lemma analyzeBatch_labels:
  "length b1 = length b2 \<Longrightarrow>
   map isAtRisk (analyzeBatch b1 s1 g) = map isAtRisk (analyzeBatch b2 s2 g)"
proof (induction b1 arbitrary: b2 g)
  case Nil
  then show ?case by simp
next
  case (Cons f b1)
  then obtain f' b2' where b2: "b2 = f' # b2'" and len: "length b1 = length b2'"
    by (cases b2) auto
  have l: "isAtRisk (fst (runAnalysisModel f s1 g)) = isAtRisk (fst (runAnalysisModel f' s2 g))"
    by (simp only: runAnalysisModel_label)
  have r: "snd (runAnalysisModel f s1 g) = snd (runAnalysisModel f' s2 g)"
    by (rule runAnalysisModel_rng)
  obtain x1 g1 where e1: "runAnalysisModel f s1 g = (x1, g1)" by (cases "runAnalysisModel f s1 g")
  obtain x2 g2 where e2: "runAnalysisModel f' s2 g = (x2, g2)" by (cases "runAnalysisModel f' s2 g")
  have "isAtRisk x1 = isAtRisk x2" using l e1 e2 by simp
  moreover have "g1 = g2" using r e1 e2 by simp
  ultimately show ?case
    using Cons.IH[OF len, of g1] by (simp add: b2 e1 e2)
qed

lemma length_analyzeBatch: "length (analyzeBatch b s g) = length b"
  by (induction b arbitrary: g) (simp_all split: prod.splits)

lemma filter_length_map:
  "length (filter P xs) = length (filter id (map P xs))"
  by (induction xs) simp_all

text \<open>
  Claim C6, amended. \<^verbatim>\<open>runAnalysisModel\<close> reads neither the contamination setting nor
  the feature vector: a file is labelled \<^verbatim>\<open>At Risk\<close> exactly when the random number
  drawn for it is above 0.7. For two runs on the same batch that see the same random
  numbers, the labels and the fraction labelled \<^verbatim>\<open>At Risk\<close> are therefore the same
  for every pair of contamination settings, so that the fraction never decreases when the
  contamination grows.
\<close>

theorem atRisk_ignores_contamination:
  "isAtRisk (fst (runAnalysisModel features s1 g)) = (0.7 < shd g) \<and>
   map isAtRisk (analyzeBatch batch s1 g) = map isAtRisk (analyzeBatch batch s2 g) \<and>
   atRiskFraction (analyzeBatch batch s1 g) = atRiskFraction (analyzeBatch batch s2 g) \<and>
   (contamination s1 \<le> contamination s2 \<longrightarrow>
      atRiskFraction (analyzeBatch batch s1 g) \<le> atRiskFraction (analyzeBatch batch s2 g))"
proof -
  have m: "map isAtRisk (analyzeBatch batch s1 g) = map isAtRisk (analyzeBatch batch s2 g)"
    by (rule analyzeBatch_labels) simp
  have "length (filter isAtRisk (analyzeBatch batch s1 g))
        = length (filter isAtRisk (analyzeBatch batch s2 g))"
    using m by (simp only: filter_length_map[of isAtRisk])
  then have f: "atRiskFraction (analyzeBatch batch s1 g) = atRiskFraction (analyzeBatch batch s2 g)"
    by (simp add: atRiskFraction_def length_analyzeBatch)
  show ?thesis using m f runAnalysisModel_label by simp
qed

theorem atRisk_ignores_contamination_witness:
  "contamination (isolationForest 0.1) \<le> contamination (isolationForest 0.5) \<and>
   atRiskFraction (analyzeBatch [[], []] (isolationForest 0.1) (0.9 ## sconst 0))
     \<le> atRiskFraction (analyzeBatch [[], []] (isolationForest 0.5) (0.9 ## sconst 0)) \<and>
   atRiskFraction (analyzeBatch [[], []] (isolationForest 0.1) (0.9 ## sconst 0)) = 1 / 2"
proof -
  have c: "contamination (isolationForest 0.1) \<le> contamination (isolationForest 0.5)"
    by (simp add: isolationForest_def)
  have v: "atRiskFraction (analyzeBatch [[], []] (isolationForest 0.1) (0.9 ## sconst 0)) = 1 / 2"
    by (simp add: atRiskFraction_def isAtRisk_def runAnalysisModel_def random_def)
  show ?thesis
    using atRisk_ignores_contamination[of "[]" "isolationForest 0.1" "0.9 ## sconst 0" "[[], []]" "isolationForest 0.5"] c v
    by simp
qed

text \<open>
  Two runs on the same one-file batch whose random numbers differ: with contamination 0.1
  and the draw 0.9 the file is at risk (fraction 1), with contamination 0.5 and the draw
  0.1 it is not (fraction 0).
\<close>

theorem atRisk_fraction_counterexample:
  "contamination (isolationForest 0.1) \<le> contamination (isolationForest 0.5) \<and>
   atRiskFraction (analyzeBatch [[]] (isolationForest 0.1) (sconst 0.9)) = 1 \<and>
   atRiskFraction (analyzeBatch [[]] (isolationForest 0.5) (sconst 0.1)) = 0"
  by (simp add: atRiskFraction_def isAtRisk_def runAnalysisModel_def random_def isolationForest_def)

subsection \<open>Pipeline\<close>

lemma pipelineLoop_append:
  "pipelineLoop st s len i (pre @ post) rs w evs =
     (case pipelineLoop st s len i pre rs w evs of
        (Inl e, w', evs') \<Rightarrow> (Inl e, w', evs')
      | (Inr rs', w', evs') \<Rightarrow> pipelineLoop st s len (i + length pre) post rs' w' evs')"
proof (induction pre arbitrary: i rs w evs)
  case Nil
  then show ?case by simp
next
  case (Cons f pre)
  obtain r w1 evs1 where pf: "processFile st s len i f w evs = (r, w1, evs1)"
    by (cases "processFile st s len i f w evs") auto
  show ?case
  proof (cases r)
    case (Inl e)
    then show ?thesis using pf by simp
  next
    case (Inr x)
    have idx: "i + length (f # pre) = i + 1 + length pre" by simp
    show ?thesis
      using pf Inr Cons.IH[of "i + 1" "rs @ [x]" w1 evs1]
      by (simp only: idx append_Cons pipelineLoop.simps prod.case sum.case)
  qed
qed

lemma processFile_failure:
  assumes "firstFailure st s f w = Some (k, m, w')"
  shows "processFile st s len i f w evs = (Inl m, w', evs @ take (2 * k - 1) (fileEvents len i))"
  using assms
  unfolding firstFailure_def processFile_def fileEvents_def Let_def
  by (auto split: prod.splits sum.splits)

lemma processFile_success:
  assumes "processFile st s len i f w evs = (Inr r, w', evs')"
  shows "evs' = evs @ fileEvents len i"
  using assms
  unfolding processFile_def fileEvents_def Let_def
  by (auto split: prod.splits sum.splits)

lemma pipelineLoop_success:
  assumes "pipelineLoop st s len i fs rs w evs = (Inr rs', w', evs')"
  shows "evs' = evs @ concat (map (fileEvents len) [i..<i + length fs]) \<and>
         length rs' = length rs + length fs"
  using assms
proof (induction fs arbitrary: i rs w evs)
  case Nil
  then show ?case by simp
next
  case (Cons f fs)
  obtain r w1 evs1 where pf: "processFile st s len i f w evs = (r, w1, evs1)"
    by (cases "processFile st s len i f w evs") auto
  show ?case
  proof (cases r)
    case (Inl e)
    have False
      using pf[unfolded Inl] Cons.prems
      by (simp only: pipelineLoop.simps prod.case sum.case prod.inject sum.distinct simp_thms)
    then show ?thesis by (rule FalseE)
  next
    case (Inr x)
    have e1: "evs1 = evs @ fileEvents len i"
      by (rule processFile_success[OF pf[unfolded Inr]])
    have "pipelineLoop st s len (i + 1) fs (rs @ [x]) w1 evs1 = (Inr rs', w', evs')"
      using Cons.prems pf[unfolded Inr]
      by (simp only: pipelineLoop.simps prod.case sum.case)
    then have "evs' = evs1 @ concat (map (fileEvents len) [i + 1..<i + 1 + length fs]) \<and>
               length rs' = length (rs @ [x]) + length fs"
      by (rule Cons.IH)
    moreover have "[i..<i + length (f # fs)] = i # [i + 1..<i + 1 + length fs]"
      by (simp add: upt_rec)
    ultimately show ?thesis using e1 by simp
  qed
qed

text \<open>
  Claim C2. If the files before file \<open>i\<close> pass all stages and some stage fails for
  file \<open>i\<close> with message \<open>m\<close>, then \<^verbatim>\<open>processAudioPipeline\<close> stops there: it answers
  with a failure whose text is \<open>m\<close> behind the prefix "Error in audio processing
  pipeline: ", the state is the one the failing stage left (no later stage runs, for this
  file or a later one), the last progress event is the start of the failing stage, and
  the answer carries no result for file \<open>i\<close> or any file after it.
\<close>

theorem pipeline_fail_fast:
  assumes "pipelineLoop st settings (length (pre @ f # post)) 0 pre [] w [] = (Inr rs, w1, evs1)"
    and "firstFailure st settings f w1 = Some (k, m, w2)"
  shows "processAudioPipelineWith st (pre @ f # post) settings w =
           (Inl (''Error in audio processing pipeline: '' @ m), w2,
            evs1 @ take (2 * k - 1) (fileEvents (length (pre @ f # post)) (length pre)))"
proof -
  let ?len = "length (pre @ f # post)"
  have "processFile st settings ?len (length pre) f w1 evs1
          = (Inl m, w2, evs1 @ take (2 * k - 1) (fileEvents ?len (length pre)))"
    using assms(2) by (rule processFile_failure)
  then have "pipelineLoop st settings ?len (0 + length pre) (f # post) rs w1 evs1
          = (Inl m, w2, evs1 @ take (2 * k - 1) (fileEvents ?len (length pre)))"
    by simp
  then have "pipelineLoop st settings ?len 0 (pre @ f # post) [] w []
          = (Inl m, w2, evs1 @ take (2 * k - 1) (fileEvents ?len (length pre)))"
    using assms(1) by (simp only: pipelineLoop_append prod.case sum.case)
  then show ?thesis
    unfolding processAudioPipelineWith_def by (simp only: prod.case sum.case)
qed

text \<open>With the stages of the source no stage fails, whatever the random numbers are.\<close>

lemma sourceStages_no_failure: "firstFailure sourceStages settings audioFile g = None"
  by (simp add: firstFailure_def sourceStages_def preprocessAudio_def transcribeAudio_def
      extractFeatures_def runAnalysisModel_def random_def Let_def split: prod.splits)

lemma rejecting_firstFailure:
  "firstFailure (rejecting bad) s \<lparr>name = bad\<rparr> g
     = Some (1, ''Error preprocessing audio: corrupt'', g)"
  by (simp add: firstFailure_def rejecting_def sourceStages_def)

theorem pipeline_fail_fast_witness:
  "fst (processAudioPipelineWith (rejecting ''c.wav'')
          [\<lparr>name = ''a.wav''\<rparr>, \<lparr>name = ''b.wav''\<rparr>, \<lparr>name = ''c.wav''\<rparr>, \<lparr>name = ''d.wav''\<rparr>]
          (isolationForest 0.2) (sconst 0))
     = Inl ''Error in audio processing pipeline: Error preprocessing audio: corrupt''"
proof -
  let ?pre = "[\<lparr>name = ''a.wav''\<rparr>, \<lparr>name = ''b.wav''\<rparr>]"
  let ?f = "\<lparr>name = ''c.wav''\<rparr>"
  let ?post = "[\<lparr>name = ''d.wav''\<rparr>]"
  let ?run = "pipelineLoop (rejecting ''c.wav'') (isolationForest 0.2)
                (length (?pre @ ?f # ?post)) 0 ?pre [] (sconst 0) []"
  obtain r w1 evs1 where run: "?run = (r, w1, evs1)" by (cases ?run) auto
  have "\<not> isl (fst ?run)"
    by (simp add: processFile_def rejecting_def sourceStages_def preprocessAudio_def
        transcribeAudio_def extractFeatures_def runAnalysisModel_def random_def)
  then obtain rs where r: "r = Inr rs" using run by (cases r) auto
  have ff: "firstFailure (rejecting ''c.wav'') (isolationForest 0.2) ?f w1
              = Some (1, ''Error preprocessing audio: corrupt'', w1)"
    by (rule rejecting_firstFailure)
  show ?thesis
    using pipeline_fail_fast[OF run[unfolded r] ff] by simp
qed

text \<open>
  Claim C3, amended. For every batch that \<^verbatim>\<open>processAudioPipeline\<close> processes
  successfully, the progress events are, file after file, the nine events of
  \<open>fileEvents\<close>: for each of the stages 1 to 4 in this order an event with
  \<^verbatim>\<open>currentStep\<close> set to the stage and progress 0, followed by an event with progress
  100; then a single event with \<^verbatim>\<open>currentStep\<close> 5 whose progress is the share of the
  batch done so far, \<open>(i + 1) / n * 100\<close> for file \<open>i\<close> of \<open>n\<close>. Stage 5 has no event
  with progress 0, and its progress is 100 for the last file only. One result is produced
  per file.
\<close>

theorem pipeline_progress_events:
  assumes "processAudioPipelineWith st audioFiles settings w = (Inr results, w', evs)"
  shows "evs = concat (map (fileEvents (length audioFiles)) [0..<length audioFiles]) \<and>
         length results = length audioFiles \<and>
         map currentStep (fileEvents (length audioFiles) i)
           = [Some 1, None, Some 2, None, Some 3, None, Some 4, None, Some 5] \<and>
         map progress (fileEvents (length audioFiles) i)
           = [0, 100, 0, 100, 0, 100, 0, 100, real (i + 1) / real (length audioFiles) * 100] \<and>
         (i < length audioFiles \<longrightarrow>
            (progress (last (fileEvents (length audioFiles) i)) = 100) = (i + 1 = length audioFiles))"
proof -
  obtain r w1 evs1 where
    loop: "pipelineLoop st settings (length audioFiles) 0 audioFiles [] w [] = (r, w1, evs1)"
    by (cases "pipelineLoop st settings (length audioFiles) 0 audioFiles [] w []") auto
  have "r = Inr results \<and> evs1 = evs"
    using assms loop unfolding processAudioPipelineWith_def by (cases r) auto
  then have "pipelineLoop st settings (length audioFiles) 0 audioFiles [] w [] = (Inr results, w1, evs)"
    using loop by simp
  then have a: "evs = [] @ concat (map (fileEvents (length audioFiles)) [0..<0 + length audioFiles]) \<and>
         length results = length ([] :: analysisResult list) + length audioFiles"
    by (rule pipelineLoop_success)
  have b: "map currentStep (fileEvents (length audioFiles) i)
           = [Some 1, None, Some 2, None, Some 3, None, Some 4, None, Some 5]"
    by (simp add: fileEvents_def stepStart_def stepDone_def)
  have c: "map progress (fileEvents (length audioFiles) i)
           = [0, 100, 0, 100, 0, 100, 0, 100, real (i + 1) / real (length audioFiles) * 100]"
    by (simp add: fileEvents_def stepStart_def stepDone_def)
  have d: "(progress (last (fileEvents (length audioFiles) i)) = 100) = (i + 1 = length audioFiles)"
    if "i < length audioFiles"
  proof -
    have pos: "0 < real (length audioFiles)" using that by (cases audioFiles) simp_all
    have "(real (i + 1) / real (length audioFiles) * 100 = 100)
          = (real (i + 1) = real (length audioFiles))"
      using pos by (auto simp: field_simps)
    also have "\<dots> = (i + 1 = length audioFiles)" by (simp only: of_nat_eq_iff)
    finally show ?thesis by (simp add: fileEvents_def)
  qed
  from a b c d show ?thesis by simp
qed

theorem pipeline_progress_events_witness:
  "snd (snd (processAudioPipeline [\<lparr>name = ''a.wav''\<rparr>, \<lparr>name = ''b.wav''\<rparr>]
               (isolationForest 0.2) (sconst 0)))
     = fileEvents 2 0 @ fileEvents 2 1 \<and>
   progress (last (fileEvents 2 1)) = 100"
proof -
  let ?run = "processAudioPipelineWith sourceStages [\<lparr>name = ''a.wav''\<rparr>, \<lparr>name = ''b.wav''\<rparr>]
               (isolationForest 0.2) (sconst 0)"
  obtain r w1 evs where run: "?run = (r, w1, evs)" by (cases ?run) auto
  have "\<not> isl (fst ?run)"
    by (simp add: processAudioPipelineWith_def processFile_def sourceStages_def
        preprocessAudio_def transcribeAudio_def extractFeatures_def runAnalysisModel_def
        random_def)
  then obtain results where r: "r = Inr results" using run by (cases r) auto
  have up: "[0..<2] = [0, 1]" by (simp add: upt_rec)
  show ?thesis
    using pipeline_progress_events[OF run[unfolded r], of 1] run
    by (simp add: processAudioPipeline_def up numeral_2_eq_2)
qed

text \<open>
  In a batch of two files the first file never reaches step 5 with progress 100: its
  step-5 event reports 50, and stage 5 has no event with progress 0.
\<close>

theorem pipeline_progress_counterexample:
  "take 9 (snd (snd (processAudioPipeline [\<lparr>name = ''a.wav''\<rparr>, \<lparr>name = ''b.wav''\<rparr>]
                       (isolationForest 0.2) (sconst 0))))
     = [stepStart 1 ''Preprocessing Audio'', stepDone,
        stepStart 2 ''Transcribing Audio'', stepDone,
        stepStart 3 ''Extracting Features'', stepDone,
        stepStart 4 ''Running Analysis Model'', stepDone,
        \<lparr>currentStep = Some 5, stepName = Some ''Compiling Results'', progress = 50\<rparr>]"
  by (simp add: processAudioPipeline_def processAudioPipelineWith_def processFile_def
      sourceStages_def preprocessAudio_def transcribeAudio_def extractFeatures_def
      runAnalysisModel_def random_def)

end
